theory Spec2Isabelle
  imports Complex_Main "HOL-Library.Sublist" "HOL-Library.Char_ord" "HOL-Library.List_Lexorder"
    "HOL-Library.Product_Lexorder" "HOL-Library.Log_Nat"
begin

section \<open>Data model of the OTT clickstream dashboard\<close>

text \<open>
  The script \<^verbatim>\<open>ott_app_main.py\<close> loads one sheet into a pandas data frame, derives
  \<^verbatim>\<open>event_date\<close> from \<^verbatim>\<open>event_time\<close>, filters the frame by the widgets' values and
  feeds eight charts from it. A calendar day (\<^verbatim>\<open>datetime.date\<close>) is modelled by its
  proleptic Gregorian ordinal: the comparisons \<^verbatim>\<open>>=\<close> and \<^verbatim>\<open><=\<close> of two dates are
  those of the ordinals. A cell of a column is an \<open>option\<close>: \<open>None\<close> is the null of
  pandas (NaN, NaT).
\<close>

type_synonym date = int

datatype error = KeyError string | ZeroDivisionError | IndexError

text \<open>
  One row of the frame. The columns the filter and the funnel read are fields of their
  own; \<open>cat\<close> holds the row's other categorical cells by column name
  (\<^verbatim>\<open>af_campaign\<close>, \<^verbatim>\<open>payment_method\<close>, \<^verbatim>\<open>payment_status\<close>, \<^verbatim>\<open>pack_name\<close> and the
  \<^verbatim>\<open>mp_*\<close> device attributes), a name without an entry being a null cell.
\<close>

record event =
  event_date :: "date option"
  event_name :: "string option"
  platform :: "string option"
  user_type :: "string option"
  pack_price :: "real option"
  cat :: "(string \<times> string) list"

text \<open>A data frame: the names of the columns it has, and its rows in index order.\<close>

record dataframe =
  columns :: "string list"
  rows :: "event list"

definition cell :: "string \<Rightarrow> event \<Rightarrow> string option" where
  "cell c e = map_of (cat e) c"

text \<open>\<^verbatim>\<open>df[mask]\<close>: the rows whose mask entry is true, in the order of the frame.\<close>

definition bool_mask :: "(event \<Rightarrow> bool) \<Rightarrow> dataframe \<Rightarrow> dataframe" where
  "bool_mask p df = df\<lparr>rows := filter p (rows df)\<rparr>"

text \<open>\<^verbatim>\<open>df.shape[0]\<close>: the number of rows.\<close>

definition shape0 :: "dataframe \<Rightarrow> int" where
  "shape0 df = int (length (rows df))"

text \<open>
  The element-wise comparisons of a column with a scalar. pandas compares a null cell
  to anything as false (for \<^verbatim>\<open>==\<close>, \<^verbatim>\<open>>=\<close> and \<^verbatim>\<open><=\<close>).
\<close>

definition cell_ge :: "date option \<Rightarrow> date \<Rightarrow> bool" where
  "cell_ge c d = (case c of None \<Rightarrow> False | Some x \<Rightarrow> x \<ge> d)"

definition cell_le :: "date option \<Rightarrow> date \<Rightarrow> bool" where
  "cell_le c d = (case c of None \<Rightarrow> False | Some x \<Rightarrow> x \<le> d)"

definition cell_eq :: "'a option \<Rightarrow> 'a \<Rightarrow> bool" where
  "cell_eq c v = (case c of None \<Rightarrow> False | Some x \<Rightarrow> x = v)"

section \<open>Filter Engine (lines 117 to 123)\<close>

text \<open>
  \<^verbatim>\<open>
  filtered_df = df_copy[(df_copy["event_date"] >= start_date) & (df_copy["event_date"] <= end_date)]
  if platform != "All":
      filtered_df = filtered_df[filtered_df["platform"] == platform]
  if user_type != "All":
      filtered_df = filtered_df[filtered_df["user_type"] == user_type]
  \<close>
  The widget values \<^verbatim>\<open>platform\<close> and \<^verbatim>\<open>user_type\<close> are the parameters
  \<open>platform_filter\<close> and \<open>user_type_filter\<close>; the string \<open>''All''\<close> is the sentinel
  for no filter. The three columns exist whenever these lines run (line 21 adds
  \<^verbatim>\<open>event_date\<close>, lines 112 and 114 have read the other two), so they are read as
  fields of the rows.
\<close>

definition filtered_df :: "dataframe \<Rightarrow> date \<Rightarrow> date \<Rightarrow> string \<Rightarrow> string \<Rightarrow> dataframe" where
  "filtered_df df_copy start_date end_date platform_filter user_type_filter =
     (let f0 = bool_mask (\<lambda>e. cell_ge (event_date e) start_date \<and> cell_le (event_date e) end_date) df_copy;
          f1 = (if platform_filter \<noteq> ''All''
                then bool_mask (\<lambda>e. cell_eq (platform e) platform_filter) f0 else f0);
          f2 = (if user_type_filter \<noteq> ''All''
                then bool_mask (\<lambda>e. cell_eq (user_type e) user_type_filter) f1 else f1)
      in f2)"

text \<open>
  The contract of the Filter Engine in the specification's words: the date lies in the
  closed range, and each equality filter is unset or matches.
\<close>

definition passes :: "date \<Rightarrow> date \<Rightarrow> string \<Rightarrow> string \<Rightarrow> event \<Rightarrow> bool" where
  "passes start_date end_date platform_filter user_type_filter e =
     ((\<exists>d. event_date e = Some d \<and> start_date \<le> d \<and> d \<le> end_date) \<and>
      (platform_filter = ''All'' \<or> platform e = Some platform_filter) \<and>
      (user_type_filter = ''All'' \<or> user_type e = Some user_type_filter))"

section \<open>Funnel Flow Builder (lines 23 to 51)\<close>

definition funnel_steps :: "string list" where
  "funnel_steps =
     [''SUBSCRIPTION-CURATED-PLAN-SELECTION-LAUNCH'',
      ''SUBSCRIPTION-CURATED-PLAN-SELECTION-PROCEED'',
      ''APP-SELECTION-PAGE'',
      ''CHOOSE_YOUR_APP_PROCEED'',
      ''SUBSCRIPTION-SUMMARY-LAUNCH'',
      ''SUBSCRIPTION-SUMMARY-PROCEED'',
      ''PAYMENT-INITIATE'',
      ''PAYMENT'',
      ''BINGE-SUBSCRIPTION'',
      ''SUBSCRIBE-SUCCESS'']"

text \<open>
  One entry of \<^verbatim>\<open>sankey_list\<close>: the dictionary with the keys \<^verbatim>\<open>source\<close>, \<^verbatim>\<open>target\<close>,
  \<^verbatim>\<open>value\<close> (the field \<open>volume\<close>) and \<^verbatim>\<open>percent\<close>. A Python float is the real
  number it stands for.
\<close>

record edge =
  source :: string
  target :: string
  volume :: int
  percent :: real

text \<open>\<^verbatim>\<open>range(n)\<close> for an integer \<open>n\<close>: empty when \<open>n \<le> 0\<close>.\<close>

definition py_range :: "int \<Rightarrow> int list" where
  "py_range n = [0..n - 1]"

text \<open>\<^verbatim>\<open>xs[i]\<close>: a negative index counts from the end, an index out of range raises.\<close>

definition getitem :: "'a list \<Rightarrow> int \<Rightarrow> error + 'a" where
  "getitem xs i =
     (if 0 \<le> i \<and> i < int (length xs) then Inr (xs ! nat i)
      else if i < 0 \<and> - int (length xs) \<le> i then Inr (xs ! nat (int (length xs) + i))
      else Inl IndexError)"

text \<open>
  Binary64 arithmetic. Python's \<^verbatim>\<open>int / int\<close> and \<^verbatim>\<open>float * float\<close> return the exact
  result rounded to the nearest binary64 number, a tie going to the even significand.
  \<open>binade x\<close> is the exponent \<open>e\<close> with \<open>2^e \<le> x < 2^(e+1)\<close>, \<open>ulp x\<close> the spacing
  \<open>2^(e-52)\<close> of the binary64 numbers there, and \<open>round64\<close> rounds to a multiple of it
  (53 significant bits). The exponent range of binary64 is not bounded in the model:
  a quotient of two row counts leaves it only from \<open>2^1024\<close> rows on.
\<close>

definition round_half_even :: "real \<Rightarrow> int" where
  "round_half_even y =
     (let f = \<lfloor>y\<rfloor>; r = y - of_int f
      in if r < 1 / 2 then f else if 1 / 2 < r then f + 1 else if even f then f else f + 1)"

definition binade :: "real \<Rightarrow> int" where
  "binade x = (if 1 \<le> x then bitlen \<lfloor>x\<rfloor> - 1 else - bitlen (\<lceil>1 / x\<rceil> - 1))"

definition ulp :: "real \<Rightarrow> real" where
  "ulp x = 2 powi (binade x - 52)"

definition round64 :: "real \<Rightarrow> real" where
  "round64 x =
     (if x = 0 then 0
      else sgn x * (of_int (round_half_even (\<bar>x\<bar> / ulp \<bar>x\<bar>)) * ulp \<bar>x\<bar>))"

text \<open>\<^verbatim>\<open>a / b\<close> on integers: true division, which raises on a zero divisor.\<close>

definition truediv :: "int \<Rightarrow> int \<Rightarrow> error + real" where
  "truediv a b =
     (if b = 0 then Inl ZeroDivisionError else Inr (round64 (real_of_int a / real_of_int b)))"

text \<open>\<^verbatim>\<open>x * y\<close> on floats (an integer operand such as 100 converts exactly).\<close>

definition float_mul :: "real \<Rightarrow> real \<Rightarrow> real" where
  "float_mul x y = round64 (x * y)"

text \<open>\<^verbatim>\<open>(tgt_count / src_count * 100) if src_count > 0 else 0\<close>\<close>

definition conv_percent :: "int \<Rightarrow> int \<Rightarrow> error + real" where
  "conv_percent src_count tgt_count =
     (if src_count > 0
      then (case truediv tgt_count src_count of Inl err \<Rightarrow> Inl err | Inr q \<Rightarrow> Inr (float_mul q 100))
      else Inr 0)"

text \<open>
  \<^verbatim>\<open>filtered_df[filtered_df["event_name"] == name].shape[0]\<close>. The builder runs at
  line 147, after line 129 has read the column \<^verbatim>\<open>event_name\<close>.
\<close>

definition name_rows :: "dataframe \<Rightarrow> string \<Rightarrow> int" where
  "name_rows fdf name = shape0 (bool_mask (\<lambda>e. cell_eq (event_name e) name) fdf)"

text \<open>
  The body of the \<^verbatim>\<open>for\<close> loop of \<^verbatim>\<open>create_sankey_data\<close>, over the indices that are
  left, with the list built so far. The global \<^verbatim>\<open>funnel_steps\<close> is the parameter
  \<open>steps\<close>.
\<close>

fun sankey_loop :: "string list \<Rightarrow> dataframe \<Rightarrow> int list \<Rightarrow> edge list \<Rightarrow> error + edge list" where
  "sankey_loop steps fdf [] sankey_list = Inr sankey_list"
| "sankey_loop steps fdf (i # todo) sankey_list =
     (case getitem steps i of Inl err \<Rightarrow> Inl err | Inr src \<Rightarrow>
      (case getitem steps (i + 1) of Inl err \<Rightarrow> Inl err | Inr tgt \<Rightarrow>
       (let src_count = name_rows fdf src;
            tgt_count = name_rows fdf tgt
        in (case conv_percent src_count tgt_count of Inl err \<Rightarrow> Inl err | Inr conv \<Rightarrow>
              sankey_loop steps fdf todo
                (sankey_list @ [\<lparr>source = src, target = tgt,
                                 volume = min src_count tgt_count, percent = conv\<rparr>])))))"

definition create_sankey_data :: "string list \<Rightarrow> dataframe \<Rightarrow> error + edge list" where
  "create_sankey_data steps fdf =
     sankey_loop steps fdf (py_range (int (length steps) - 1)) []"

text \<open>
  The specification's count of a step: the number of events of the filtered collection
  whose \<^verbatim>\<open>event_name\<close> is the step.
\<close>

definition step_count :: "dataframe \<Rightarrow> string \<Rightarrow> int" where
  "step_count fdf name = int (count_list (map event_name (rows fdf)) (Some name))"

text \<open>
  The specification's percent of a source count and a target count: the Python
  expression \<^verbatim>\<open>tgt_count / src_count * 100\<close>, in binary64.
\<close>

definition ratio_percent :: "int \<Rightarrow> int \<Rightarrow> real" where
  "ratio_percent src_count tgt_count =
     float_mul (round64 (real_of_int tgt_count / real_of_int src_count)) 100"

text \<open>The specification's edge of an adjacent pair of steps (section 4.2, points 1 to 5).\<close>

definition flow_edge :: "dataframe \<Rightarrow> string \<Rightarrow> string \<Rightarrow> edge" where
  "flow_edge fdf s t =
     \<lparr>source = s, target = t,
      volume = min (step_count fdf s) (step_count fdf t),
      percent = (if step_count fdf s > 0
                 then ratio_percent (step_count fdf s) (step_count fdf t)
                 else 0)\<rparr>"

section \<open>The views of the dashboard (lines 16 to 241)\<close>

text \<open>
  The script runs top to bottom on every refresh. A read \<^verbatim>\<open>df["c"]\<close> or a
  \<^verbatim>\<open>groupby("c")\<close> of a column the frame does not have raises KeyError, which ends
  the run: no later view is drawn. \<open>require\<close> is that check; \<open>and_then\<close> runs the rest
  of the script after a step that did not raise.
\<close>

definition require :: "dataframe \<Rightarrow> string \<Rightarrow> error + unit" where
  "require df c = (if c \<in> set (columns df) then Inr () else Inl (KeyError c))"

definition and_then :: "error + 'a \<Rightarrow> ('a \<Rightarrow> error + 'b) \<Rightarrow> error + 'b" where
  "and_then m f = (case m of Inl err \<Rightarrow> Inl err | Inr x \<Rightarrow> f x)"

text \<open>
  Lines 16 to 21: \<^verbatim>\<open>df_copy["event_date"] = pd.to_datetime(df_copy["event_time"]).dt.date\<close>.
  The field \<open>event_date\<close> of a row is the calendar day of its \<^verbatim>\<open>event_time\<close> (null
  for a null time); the assignment adds the column to the frame. A sheet with a time
  that does not parse ends the run at line 20 and is not a frame of the model.
\<close>

definition prepare :: "dataframe \<Rightarrow> error + dataframe" where
  "prepare df =
     and_then (require df ''event_time'')
       (\<lambda>_. Inr (if ''event_date'' \<in> set (columns df) then df
                 else df\<lparr>columns := columns df @ [''event_date'']\<rparr>))"

text \<open>The non-null cells of a column, in order (\<^verbatim>\<open>dropna\<close>).\<close>

definition dropna :: "'a option list \<Rightarrow> 'a list" where
  "dropna col = concat (map (\<lambda>c. case c of None \<Rightarrow> [] | Some v \<Rightarrow> [v]) col)"

text \<open>The distinct values of a list in the order of their first appearance.\<close>

definition unique :: "'a list \<Rightarrow> 'a list" where
  "unique vs = rev (remdups (rev vs))"

text \<open>
  \<^verbatim>\<open>Series.value_counts()\<close>: the distinct non-null values with the number of their
  rows, the largest count first. Values of equal count are kept in the order of their
  first appearance (pandas leaves their order open).
\<close>

definition value_counts :: "'a option list \<Rightarrow> ('a \<times> int) list" where
  "value_counts col =
     (let vs = dropna col
      in sort_key (\<lambda>vc. - snd vc) (map (\<lambda>v. (v, int (count_list vs v))) (unique vs)))"

text \<open>
  \<^verbatim>\<open>Series.reindex(labels)\<close>, with no \<^verbatim>\<open>fill_value\<close>: one entry per label, in the
  order of the labels; a label the series does not have gets a null (NaN).
\<close>

definition reindex :: "('a \<times> int) list \<Rightarrow> 'a list \<Rightarrow> ('a \<times> int option) list" where
  "reindex series labels = map (\<lambda>l. (l, map_of series l)) labels"

text \<open>\<^verbatim>\<open>Series.nlargest(n)\<close> of a series that is sorted, largest first: its first n entries.\<close>

definition nlargest :: "nat \<Rightarrow> ('a \<times> int) list \<Rightarrow> ('a \<times> int) list" where
  "nlargest n series = take n series"

text \<open>
  \<^verbatim>\<open>groupby(key).size()\<close>: the rows with a null key are dropped, the groups come in
  ascending order of the key, each with the number of its rows.
\<close>

definition groupby_size :: "('k::linorder) option list \<Rightarrow> ('k \<times> int) list" where
  "groupby_size keys =
     (let ks = dropna keys in map (\<lambda>k. (k, int (count_list ks k))) (sort (remdups ks)))"

text \<open>The key of a row in a \<^verbatim>\<open>groupby\<close> over two columns: null when either cell is.\<close>

definition key2 :: "'a option \<Rightarrow> 'b option \<Rightarrow> ('a \<times> 'b) option" where
  "key2 a b = (case a of None \<Rightarrow> None | Some x \<Rightarrow> (case b of None \<Rightarrow> None | Some y \<Rightarrow> Some (x, y)))"

text \<open>
  \<^verbatim>\<open>groupby(key)[col].agg(["count", "mean"])\<close>: per group, the number of non-null
  cells of the column and their mean (null when there is none).
\<close>

definition groupby_count_mean :: "(('k::linorder) option \<times> real option) list \<Rightarrow> ('k \<times> int \<times> real option) list" where
  "groupby_count_mean kvs =
     map (\<lambda>k. (let ps = dropna (map snd (filter (\<lambda>kv. fst kv = Some k) kvs))
                in (k, int (length ps),
                    if ps = [] then None else Some (sum_list ps / real (length ps)))))
         (sort (remdups (dropna (map fst kvs))))"

text \<open>\<^verbatim>\<open>Series.isin(values)\<close>: false on a null cell.\<close>

definition isin :: "'a option \<Rightarrow> 'a list \<Rightarrow> bool" where
  "isin c vs = (case c of None \<Rightarrow> False | Some v \<Rightarrow> v \<in> set vs)"

text \<open>
  Lines 129 to 133, the funnel bar chart:
  \<^verbatim>\<open>funnel_df["event_name"].value_counts().reindex(funnel_steps).reset_index()\<close>.
\<close>

definition funnel_counts :: "dataframe \<Rightarrow> error + (string \<times> int option) list" where
  "funnel_counts fdf =
     and_then (require fdf ''event_name'')
       (\<lambda>_. (let funnel_df = bool_mask (\<lambda>e. isin (event_name e) funnel_steps) fdf
             in Inr (reindex (value_counts (map event_name (rows funnel_df))) funnel_steps)))"

text \<open>Line 152: \<^verbatim>\<open>filtered_df.groupby("event_date").size()\<close>.\<close>

definition daily_events :: "dataframe \<Rightarrow> error + (date \<times> int) list" where
  "daily_events fdf =
     and_then (require fdf ''event_date'')
       (\<lambda>_. Inr (groupby_size (map event_date (rows fdf))))"

text \<open>Lines 164 to 169, the conversions per campaign.\<close>

definition campaign_summary :: "dataframe \<Rightarrow> error + (string \<times> int) list" where
  "campaign_summary fdf =
     and_then (require fdf ''event_name'')
       (\<lambda>_. (let campaign_conv =
                   bool_mask (\<lambda>e. isin (event_name e) [''BINGE-SUBSCRIPTION'', ''SUBSCRIBE-SUCCESS'']) fdf
             in and_then (require campaign_conv ''af_campaign'')
                  (\<lambda>_. Inr (groupby_size (map (cell ''af_campaign'') (rows campaign_conv))))))"

text \<open>Lines 181 and 182: \<^verbatim>\<open>filtered_df["mp_os"].value_counts()\<close>, with no presence check.\<close>

definition device_summary :: "dataframe \<Rightarrow> error + (string \<times> int) list" where
  "device_summary fdf =
     and_then (require fdf ''mp_os'')
       (\<lambda>_. Inr (value_counts (map (cell ''mp_os'') (rows fdf))))"

text \<open>
  Lines 188 to 193: the payment view, drawn only when the frame has both columns;
  \<open>None\<close> is the view left out.
\<close>

definition payment_summary :: "dataframe \<Rightarrow> error + ((string \<times> string) \<times> int) list option" where
  "payment_summary fdf =
     (if ''payment_method'' \<in> set (columns fdf) \<and> ''payment_status'' \<in> set (columns fdf)
      then Inr (Some (groupby_size
             (map (\<lambda>e. key2 (cell ''payment_method'' e) (cell ''payment_status'' e)) (rows fdf))))
      else Inr None)"

text \<open>
  Lines 203 to 207: the pack view, drawn only when the frame has \<^verbatim>\<open>pack_name\<close>; the
  column \<^verbatim>\<open>pack_price\<close> is read with no check.
\<close>

definition pack_summary :: "dataframe \<Rightarrow> error + (string \<times> int \<times> real option) list option" where
  "pack_summary fdf =
     (if ''pack_name'' \<in> set (columns fdf)
      then and_then (require fdf ''pack_price'')
             (\<lambda>_. Inr (Some (groupby_count_mean
                     (map (\<lambda>e. (cell ''pack_name'' e, pack_price e)) (rows fdf)))))
      else Inr None)"

text \<open>
  Lines 218 to 228, the device attribute explorer. \<^verbatim>\<open>st.sidebar.selectbox\<close> returns
  the user's choice among the options, the first option before any choice, and None
  when there is no option; \<^verbatim>\<open>df_copy[None]\<close> raises KeyError.
\<close>

definition columns_to_visualize :: "dataframe \<Rightarrow> string list" where
  "columns_to_visualize df_copy =
     filter (\<lambda>c. c \<in> set (columns df_copy))
       [''mp_brand'', ''mp_browser'', ''mp_carrier'', ''mp_city'', ''mp_country_code'',
        ''mp_manufacturer'', ''mp_model'', ''mp_os'', ''mp_os_version'', ''mp_region'', ''mp_wifi'']"

definition selectbox :: "string list \<Rightarrow> string \<Rightarrow> string option" where
  "selectbox opts choice =
     (case opts of [] \<Rightarrow> None
      | first # _ \<Rightarrow> (if choice \<in> set opts then Some choice else Some first))"

definition col_counts :: "dataframe \<Rightarrow> string \<Rightarrow> nat \<Rightarrow> error + (string \<times> int) list" where
  "col_counts df_copy col_choice top_n =
     (case selectbox (columns_to_visualize df_copy) col_choice of
        None \<Rightarrow> Inl (KeyError ''None'')
      | Some selected_col \<Rightarrow>
          and_then (require df_copy selected_col)
            (\<lambda>_. Inr (nlargest top_n (value_counts (map (cell selected_col) (rows df_copy))))))"

text \<open>What one run of the script hands to the charts.\<close>

record views =
  funnel_bar :: "(string \<times> int option) list"
  sankey :: "edge list"
  daily_trends :: "(date \<times> int) list"
  campaign_conversions :: "(string \<times> int) list"
  device_os :: "(string \<times> int) list"
  payment :: "((string \<times> string) \<times> int) list option"
  pack_popularity :: "(string \<times> int \<times> real option) list option"
  explorer :: "(string \<times> int) list"

text \<open>
  One run of the script on the loaded sheet \<open>df\<close>, with the values the widgets return:
  the two dates, the platform and user type (\<open>''All''\<close> for no filter), the column
  chosen in the sidebar and the slider's \<^verbatim>\<open>top_n\<close>. Lines 112 and 114 read the columns
  \<^verbatim>\<open>platform\<close> and \<^verbatim>\<open>user_type\<close> to fill the select boxes. The views follow in the
  script's order; the last one reads \<^verbatim>\<open>df_copy\<close>, all the others \<^verbatim>\<open>filtered_df\<close>.
  The result holds the table each chart is drawn from; the drawing itself (plotly) is
  not modelled.
\<close>

definition dashboard ::
  "dataframe \<Rightarrow> date \<Rightarrow> date \<Rightarrow> string \<Rightarrow> string \<Rightarrow> string \<Rightarrow> nat \<Rightarrow> error + views" where
  "dashboard df start_date end_date platform_filter user_type_filter col_choice top_n =
     and_then (prepare df) (\<lambda>df_copy.
     and_then (require df_copy ''platform'') (\<lambda>_.
     and_then (require df_copy ''user_type'') (\<lambda>_.
     (let fdf = filtered_df df_copy start_date end_date platform_filter user_type_filter in
     and_then (funnel_counts fdf) (\<lambda>v_funnel.
     and_then (create_sankey_data funnel_steps fdf) (\<lambda>v_sankey.
     and_then (daily_events fdf) (\<lambda>v_daily.
     and_then (campaign_summary fdf) (\<lambda>v_campaign.
     and_then (device_summary fdf) (\<lambda>v_device.
     and_then (payment_summary fdf) (\<lambda>v_payment.
     and_then (pack_summary fdf) (\<lambda>v_pack.
     and_then (col_counts df_copy col_choice top_n) (\<lambda>v_explorer.
       Inr \<lparr>funnel_bar = v_funnel, sankey = v_sankey, daily_trends = v_daily,
            campaign_conversions = v_campaign, device_os = v_device, payment = v_payment,
            pack_popularity = v_pack, explorer = v_explorer\<rparr>))))))))))))"

section \<open>Example inputs\<close>

text \<open>
  The scenarios of the specification's section 8, as frames whose rows carry a step
  name only; a frame of 20 and 11 events, whose percent is not exact in binary64; a
  frame of 2^53 and 2^53 + 1 events, whose quotient rounds to 1; and a frame over two
  steps of the configured funnel.
\<close>

definition named_event :: "string \<Rightarrow> event" where
  "named_event name =
     \<lparr>event_date = Some 0, event_name = Some name, platform = None, user_type = None,
      pack_price = None, cat = []\<rparr>"

definition named_frame :: "event list \<Rightarrow> dataframe" where
  "named_frame es = \<lparr>columns = [''event_time'', ''event_name'', ''event_date''], rows = es\<rparr>"

definition scenario_A :: dataframe where
  "scenario_A = named_frame (replicate 10 (named_event ''S1'') @ replicate 4 (named_event ''S2''))"

definition scenario_B :: dataframe where
  "scenario_B = named_frame (replicate 5 (named_event ''S2''))"

definition scenario_C :: dataframe where
  "scenario_C = named_frame (replicate 10 (named_event ''S1'') @ replicate 6 (named_event ''S2'')
                   @ replicate 9 (named_event ''S3''))"



definition surplus_frame :: dataframe where
  "surplus_frame = named_frame (replicate 2 (named_event ''PAYMENT'')
                   @ replicate 3 (named_event ''BINGE-SUBSCRIPTION''))"

text \<open>
  A sheet of two PAYMENT events, on day 1 and on day 2, both with \<^verbatim>\<open>mp_os\<close> Android,
  with the columns the ungated views read and no payment or pack column; and the same
  sheet with a column \<^verbatim>\<open>mp_brand\<close> in place of the column \<^verbatim>\<open>mp_os\<close>.
\<close>

definition sample_row :: "date \<Rightarrow> string \<Rightarrow> string \<Rightarrow> event" where
  "sample_row d name plat =
     \<lparr>event_date = Some d, event_name = Some name, platform = Some plat,
      user_type = Some ''New'', pack_price = None,
      cat = [(''af_campaign'', ''organic''), (''mp_os'', ''Android'')]\<rparr>"

definition sample_sheet :: dataframe where
  "sample_sheet =
     \<lparr>columns = [''event_time'', ''event_name'', ''platform'', ''user_type'',
                 ''af_campaign'', ''mp_os''],
      rows = [sample_row 1 ''PAYMENT'' ''Android'', sample_row 2 ''PAYMENT'' ''iOS'']\<rparr>"

definition sheet_without_mp_os :: dataframe where
  "sheet_without_mp_os =
     sample_sheet\<lparr>columns := [''event_time'', ''event_name'', ''platform'', ''user_type'',
                              ''af_campaign'', ''mp_brand'']\<rparr>"

section \<open>Properties of the Filter Engine\<close>

lemma rows_bool_mask: "rows (bool_mask p df) = filter p (rows df)"
  by (simp add: bool_mask_def)

lemma columns_bool_mask: "columns (bool_mask p df) = columns df"
  by (simp add: bool_mask_def)

lemma bool_mask_twice: "bool_mask q (bool_mask p df) = bool_mask (\<lambda>e. p e \<and> q e) df"
  by (simp add: bool_mask_def)

lemma cell_ge_iff: "cell_ge c d \<longleftrightarrow> (\<exists>x. c = Some x \<and> d \<le> x)"
  by (cases c) (simp_all add: cell_ge_def)

lemma cell_le_iff: "cell_le c d \<longleftrightarrow> (\<exists>x. c = Some x \<and> x \<le> d)"
  by (cases c) (simp_all add: cell_le_def)

lemma cell_eq_iff: "cell_eq c v \<longleftrightarrow> c = Some v"
  by (cases c) (simp_all add: cell_eq_def)

lemma filtered_df_as_mask:
  "filtered_df df s e p u = bool_mask (passes s e p u) df"
proof -
  have in_range: "(cell_ge (event_date ev) s \<and> cell_le (event_date ev) e)
      = (\<exists>d. event_date ev = Some d \<and> s \<le> d \<and> d \<le> e)" for ev
    by (auto simp: cell_ge_iff cell_le_iff)
  have spec: "passes s e p u = (\<lambda>ev. (\<exists>d. event_date ev = Some d \<and> s \<le> d \<and> d \<le> e) \<and>
      (p = ''All'' \<or> platform ev = Some p) \<and> (u = ''All'' \<or> user_type ev = Some u))"
    by (rule ext) (simp add: passes_def)
  show ?thesis
    unfolding spec
    by (simp add: filtered_df_def Let_def bool_mask_twice cell_eq_iff in_range)
qed

lemma rows_filtered_df:
  "rows (filtered_df df s e p u) = filter (passes s e p u) (rows df)"
  by (simp add: filtered_df_as_mask rows_bool_mask)

text \<open>
  C4. An event is in the result exactly when it is an event of the input whose date
  lies in [start_date, end_date] and which matches each equality filter that is set;
  the result is the input with the other rows dropped, in the input's order (and with
  the input's columns); when start_date is after end_date the result has no rows.
\<close>

theorem filter_engine_contract:
  "(\<forall>ev. ev \<in> set (rows (filtered_df df start_date end_date platform_filter user_type_filter)) \<longleftrightarrow>
      ev \<in> set (rows df) \<and>
      (\<exists>d. event_date ev = Some d \<and> start_date \<le> d \<and> d \<le> end_date) \<and>
      (platform_filter = ''All'' \<or> platform ev = Some platform_filter) \<and>
      (user_type_filter = ''All'' \<or> user_type ev = Some user_type_filter))
   \<and> rows (filtered_df df start_date end_date platform_filter user_type_filter)
       = filter (passes start_date end_date platform_filter user_type_filter) (rows df)
   \<and> subseq (rows (filtered_df df start_date end_date platform_filter user_type_filter)) (rows df)
   \<and> columns (filtered_df df start_date end_date platform_filter user_type_filter) = columns df
   \<and> (end_date < start_date \<longrightarrow>
        rows (filtered_df df start_date end_date platform_filter user_type_filter) = [])"
proof -
  let ?r = "rows (filtered_df df start_date end_date platform_filter user_type_filter)"
  have r: "?r = filter (passes start_date end_date platform_filter user_type_filter) (rows df)"
    by (rule rows_filtered_df)
  have mem: "\<forall>ev. ev \<in> set ?r \<longleftrightarrow>
      ev \<in> set (rows df) \<and>
      (\<exists>d. event_date ev = Some d \<and> start_date \<le> d \<and> d \<le> end_date) \<and>
      (platform_filter = ''All'' \<or> platform ev = Some platform_filter) \<and>
      (user_type_filter = ''All'' \<or> user_type ev = Some user_type_filter)"
    unfolding r by (simp add: passes_def)
  have sub: "subseq ?r (rows df)"
    unfolding r by simp
  have cols: "columns (filtered_df df start_date end_date platform_filter user_type_filter) = columns df"
    by (simp add: filtered_df_as_mask columns_bool_mask)
  have empty: "end_date < start_date \<longrightarrow> ?r = []"
    unfolding r by (auto simp: passes_def filter_empty_conv)
  from mem r sub cols empty show ?thesis by blast
qed

theorem filter_engine_contract_witness:
  "(5::date) < 10 \<and>
   rows (filtered_df sample_sheet 10 5 ''All'' ''All'') = [] \<and>
   rows (filtered_df sample_sheet 1 2 ''All'' ''All'') = rows sample_sheet \<and>
   rows (filtered_df sample_sheet 2 2 ''All'' ''All'') = [sample_row 2 ''PAYMENT'' ''iOS''] \<and>
   rows (filtered_df sample_sheet 1 2 ''Android'' ''New'') = [sample_row 1 ''PAYMENT'' ''Android'']"
  using filter_engine_contract[of sample_sheet 10 5 "''All''" "''All''"]
    filter_engine_contract[of sample_sheet 1 2 "''All''" "''All''"]
    filter_engine_contract[of sample_sheet 2 2 "''All''" "''All''"]
    filter_engine_contract[of sample_sheet 1 2 "''Android''" "''New''"]
  by (simp add: passes_def sample_sheet_def sample_row_def)

text \<open>
  C10. Filtering the output of the filter again, with the same parameters, changes
  nothing.
\<close>

theorem filter_engine_idempotent:
  "filtered_df (filtered_df df start_date end_date platform_filter user_type_filter)
       start_date end_date platform_filter user_type_filter
   = filtered_df df start_date end_date platform_filter user_type_filter"
  by (simp add: filtered_df_as_mask bool_mask_twice)

section \<open>Properties of the binary64 rounding\<close>

lemma round_half_even_le: "y \<le> of_int n \<Longrightarrow> round_half_even y \<le> n"
  unfolding round_half_even_def Let_def by (auto; linarith)

lemma round_half_even_ge: "of_int n \<le> y \<Longrightarrow> n \<le> round_half_even y"
  unfolding round_half_even_def Let_def by (auto; linarith)

lemma round_half_even_gt: "of_int n + 1 / 2 < y \<Longrightarrow> n + 1 \<le> round_half_even y"
  unfolding round_half_even_def Let_def by (auto; linarith)

lemma round_half_even_of_int: "round_half_even (of_int n) = n"
  by (simp add: round_half_even_def)

lemma binade_log:
  assumes "0 < x"
  shows "binade x = \<lfloor>log 2 x\<rfloor>"
proof (cases "1 \<le> x")
  case True
  let ?n = "\<lfloor>x\<rfloor>"
  have n: "0 < ?n" using True by simp
  let ?b = "bitlen ?n"
  have b: "1 \<le> ?b" using n by (simp add: bitlen_alt_def)
  from bitlen_bounds[OF n] have lo: "2 ^ nat (?b - 1) \<le> ?n" and hi: "?n < 2 ^ nat ?b"
    by simp_all
  have "real_of_int (2 ^ nat (?b - 1)) \<le> of_int ?n"
    using lo by (simp only: of_int_le_iff)
  then have 1: "2 ^ nat (?b - 1) \<le> x"
    by (simp add: le_floor_iff)
  have "?n + 1 \<le> 2 ^ nat ?b" using hi by simp
  then have "real_of_int (?n + 1) \<le> of_int (2 ^ nat ?b)"
    by (simp only: of_int_le_iff)
  then have 2: "x < 2 ^ nat ?b"
    by (simp add: floor_less_iff) linarith
  have p: "(2::real) powr of_int (?b - 1) = 2 ^ nat (?b - 1)"
      "(2::real) powr of_int ?b = 2 ^ nat ?b"
    using b by (simp_all add: powr_real_of_int del: of_int_diff)
  have "of_int (?b - 1) \<le> log 2 x"
    using assms 1 by (simp add: le_log_iff p del: of_int_diff)
  moreover have "log 2 x < of_int ?b"
    using assms 2 by (simp add: log_less_iff p)
  ultimately have "\<lfloor>log 2 x\<rfloor> = ?b - 1"
    by (simp add: floor_eq_iff)
  then show ?thesis using True by (simp add: binade_def)
next
  case False
  then have x1: "x < 1" by simp
  let ?c = "\<lceil>1 / x\<rceil>"
  let ?b = "bitlen (?c - 1)"
  have cc: "of_int ?c - 1 < 1 / x" "1 / x \<le> of_int ?c"
    by linarith+
  have "1 < 1 / x" using assms x1 by simp
  then have m: "0 < ?c - 1" using cc(2) by linarith
  have b: "1 \<le> ?b" using m by (simp add: bitlen_alt_def)
  from bitlen_bounds[OF m] have lo: "2 ^ nat (?b - 1) \<le> ?c - 1" and hi: "?c \<le> 2 ^ nat ?b"
    by simp_all
  have "real_of_int (2 ^ nat (?b - 1)) \<le> real_of_int (?c - 1)"
    using lo by (simp only: of_int_le_iff)
  then have rlo: "2 ^ nat (?b - 1) \<le> real_of_int ?c - 1"
    by (simp only: of_int_diff of_int_1 of_int_power of_int_numeral)
  have "real_of_int ?c \<le> real_of_int (2 ^ nat ?b)"
    using hi by (simp only: of_int_le_iff)
  then have rhi: "real_of_int ?c \<le> 2 ^ nat ?b"
    by (simp only: of_int_power of_int_numeral)
  have 1: "2 ^ nat (?b - 1) < 1 / x" using rlo cc(1) by linarith
  have 2: "1 / x \<le> 2 ^ nat ?b" using rhi cc(2) by linarith
  have 3: "x < 1 / 2 ^ nat (?b - 1)"
    using 1 assms by (simp add: field_simps)
  have 4: "1 / 2 ^ nat ?b \<le> x"
    using 2 assms by (simp add: field_simps)
  have p: "(2::real) powr of_int (- ?b) = 1 / 2 ^ nat ?b"
      "(2::real) powr of_int (1 - ?b) = 1 / 2 ^ nat (?b - 1)"
    using b by (simp_all add: powr_real_of_int field_simps del: of_int_diff of_int_minus)
  have "of_int (- ?b) \<le> log 2 x"
    using assms 4 by (simp add: le_log_iff p del: of_int_minus)
  moreover have "log 2 x < of_int (1 - ?b)"
    using assms 3 by (simp add: log_less_iff p del: of_int_diff)
  ultimately have "\<lfloor>log 2 x\<rfloor> = - ?b"
    by (simp add: floor_eq_iff)
  then show ?thesis using False by (simp add: binade_def)
qed

lemma ulp_powr: "ulp x = 2 powr of_int (binade x - 52)"
  by (simp add: ulp_def powr_real_of_int' del: of_int_diff)

lemma ulp_pos: "0 < ulp x"
  by (simp add: ulp_powr)

lemma binade_eqI:
  assumes "2 powr of_int k \<le> x" and "x < 2 powr of_int (k + 1)"
  shows "binade x = k"
proof -
  have "0 < x" using assms(1) powr_gt_zero[of 2 "of_int k"] by linarith
  then show ?thesis
    using assms
    by (simp add: binade_log floor_eq_iff le_log_iff log_less_iff)
qed

lemma binade_bounds:
  assumes "0 < x"
  shows "2 powr of_int (binade x) \<le> x" and "x < 2 powr of_int (binade x + 1)"
proof -
  have "of_int (binade x) \<le> log 2 x" "log 2 x < of_int (binade x + 1)"
    unfolding binade_log[OF assms] by linarith+
  then show "2 powr of_int (binade x) \<le> x" "x < 2 powr of_int (binade x + 1)"
    using assms by (simp_all add: le_log_iff log_less_iff del: of_int_add)
qed

lemma round64_pos:
  "0 < x \<Longrightarrow> round64 x = of_int (round_half_even (x / ulp x)) * ulp x"
  by (simp add: round64_def)

lemma round64_le_grid:
  assumes "0 < x" and "x \<le> of_int n * ulp x"
  shows "round64 x \<le> of_int n * ulp x"
proof -
  have "x / ulp x \<le> of_int n"
    using assms(2) ulp_pos[of x] by (simp add: pos_divide_le_eq)
  then have "round_half_even (x / ulp x) \<le> n" by (rule round_half_even_le)
  then have "of_int (round_half_even (x / ulp x)) * ulp x \<le> of_int n * ulp x"
    using ulp_pos[of x] by (simp add: mult_right_mono)
  then show ?thesis by (simp add: round64_pos[OF assms(1)])
qed

lemma round64_ge_grid:
  assumes "0 < x" and "of_int n * ulp x \<le> x"
  shows "of_int n * ulp x \<le> round64 x"
proof -
  have "of_int n \<le> x / ulp x"
    using assms(2) ulp_pos[of x] by (simp add: pos_le_divide_eq)
  then have "n \<le> round_half_even (x / ulp x)" by (rule round_half_even_ge)
  then have "of_int n * ulp x \<le> of_int (round_half_even (x / ulp x)) * ulp x"
    using ulp_pos[of x] by (simp add: mult_right_mono)
  then show ?thesis by (simp add: round64_pos[OF assms(1)])
qed

lemma ulp_shift: "of_int (2 ^ 52) * ulp x = 2 powr of_int (binade x)"
  by (simp add: ulp_powr powr_diff)

lemma ulp_shift_up: "of_int (2 ^ 53) * ulp x = 2 powr of_int (binade x + 1)"
  by (simp add: ulp_powr powr_diff powr_add)

lemma round64_ge_pow2:
  assumes "0 < x" and "2 powr of_int k \<le> x"
  shows "2 powr of_int k \<le> round64 x"
proof -
  have "(2::real) powr of_int k < 2 powr of_int (binade x + 1)"
    using assms(2) binade_bounds(2)[OF assms(1)] by linarith
  then have "k \<le> binade x" by simp
  then have "2 powr of_int k \<le> (2::real) powr of_int (binade x)" by simp
  also have "\<dots> \<le> round64 x"
    using round64_ge_grid[OF assms(1), of "2 ^ 52"] binade_bounds(1)[OF assms(1)]
    unfolding ulp_shift by simp
  finally show ?thesis .
qed

lemma round64_le_pow2:
  assumes "0 < x" and "x \<le> 2 powr of_int k"
  shows "round64 x \<le> 2 powr of_int k"
proof (cases "binade x + 1 \<le> k")
  case True
  have "round64 x \<le> 2 powr of_int (binade x + 1)"
    using round64_le_grid[OF assms(1), of "2 ^ 53"] binade_bounds(2)[OF assms(1)]
    unfolding ulp_shift_up by simp
  also have "\<dots> \<le> 2 powr of_int k"
    using True by (simp del: of_int_add)
  finally show ?thesis .
next
  case False
  then have "k \<le> binade x" by simp
  then have "2 powr of_int k \<le> (2::real) powr of_int (binade x)" by simp
  with binade_bounds(1)[OF assms(1)] assms(2) have x: "x = 2 powr of_int (binade x)" "x = 2 powr of_int k"
    by linarith+
  have "round64 x \<le> of_int (2 ^ 52) * ulp x"
    using round64_le_grid[OF assms(1), of "2 ^ 52"] x(1) unfolding ulp_shift by simp
  then show ?thesis unfolding ulp_shift using x by simp
qed

lemma round64_nonneg: "0 \<le> x \<Longrightarrow> 0 \<le> round64 x"
  using ulp_pos[of x] round_half_even_ge[of 0 "x / ulp x"]
  by (cases "x = 0") (simp_all add: round64_def)

lemma round64_le_1: "0 \<le> x \<Longrightarrow> x \<le> 1 \<Longrightarrow> round64 x \<le> 1"
  using round64_le_pow2[of x 0] by (cases "x = 0") (simp_all add: round64_def)

lemma round64_ge_1: "1 \<le> x \<Longrightarrow> 1 \<le> round64 x"
  using round64_ge_pow2[of x 0] by simp

lemma binade_64_128: "64 \<le> x \<Longrightarrow> x < 128 \<Longrightarrow> binade x = 6"
  by (rule binade_eqI) (simp_all add: powr_realpow[symmetric] del: of_int_add)

lemma ulp_64_128: "64 \<le> x \<Longrightarrow> x < 128 \<Longrightarrow> ulp x = 1 / 2 ^ 46"
  by (simp add: ulp_powr binade_64_128 powr_minus_divide powr_realpow[symmetric])

lemma round64_le_100:
  assumes "0 \<le> z" and "z \<le> 100"
  shows "round64 z \<le> 100"
proof -
  consider "z = 0" | "0 < z" "z < 64" | "64 \<le> z" using assms(1) by fastforce
  then show ?thesis
  proof cases
    case 1 then show ?thesis by (simp add: round64_def)
  next
    case 2
    then have "round64 z \<le> 2 powr of_int 6"
      by (intro round64_le_pow2) (simp_all add: powr_realpow[symmetric])
    then show ?thesis by (simp add: powr_realpow[symmetric])
  next
    case 3
    then have u: "ulp z = 1 / 2 ^ 46" using assms(2) by (simp add: ulp_64_128)
    show ?thesis
      using round64_le_grid[of z "100 * 2 ^ 46"] 3 assms(2) by (simp add: u)
  qed
qed

lemma round64_ge_100:
  assumes "100 \<le> z"
  shows "100 \<le> round64 z"
proof (cases "z < 128")
  case True
  then have u: "ulp z = 1 / 2 ^ 46" using assms by (simp add: ulp_64_128)
  show ?thesis
    using round64_ge_grid[of z "100 * 2 ^ 46"] assms by (simp add: u)
next
  case False
  then have "2 powr of_int 7 \<le> round64 z"
    using assms by (intro round64_ge_pow2) (simp_all add: powr_realpow[symmetric])
  then show ?thesis by (simp add: powr_realpow[symmetric])
qed

lemma round64_gt_100:
  assumes "100 + 1 / 2 ^ 46 \<le> z"
  shows "100 < round64 z"
proof (cases "z < 128")
  case True
  have z: "64 \<le> z" using assms by simp
  then have u: "ulp z = 1 / 2 ^ 46" using True by (simp add: ulp_64_128)
  have "of_int (100 * 2 ^ 46 + 1) * ulp z \<le> round64 z"
    using z assms by (intro round64_ge_grid) (simp_all add: u field_simps)
  then show ?thesis by (simp add: u field_simps)
next
  case False
  then have "0 < z" by simp
  then have "2 powr of_int 7 \<le> round64 z"
    using False by (intro round64_ge_pow2) (simp_all add: powr_realpow[symmetric])
  then show ?thesis by (simp add: powr_realpow[symmetric])
qed

lemma round64_gt_1:
  assumes "1 + 1 / 2 ^ 53 < x"
  shows "1 + 1 / 2 ^ 52 \<le> round64 x"
proof (cases "x < 2")
  case True
  have x: "1 \<le> x" "0 < x" using assms by simp_all
  have b: "binade x = 0"
    using x True by (intro binade_eqI) simp_all
  have u: "ulp x = 1 / 2 ^ 52"
    by (simp add: ulp_powr b powr_minus_divide powr_realpow[symmetric])
  have "of_int (2 ^ 52) + 1 / 2 < x / ulp x"
    using assms by (simp add: u field_simps)
  then have "2 ^ 52 + 1 \<le> round_half_even (x / ulp x)"
    by (rule round_half_even_gt)
  then have "of_int (2 ^ 52 + 1) * ulp x \<le> of_int (round_half_even (x / ulp x)) * ulp x"
    using ulp_pos[of x] by (intro mult_right_mono) simp_all
  then show ?thesis
    by (simp add: round64_pos[OF x(2)] u field_simps)
next
  case False
  then have "0 < x" by simp
  then have "2 powr of_int 1 \<le> round64 x"
    using False by (intro round64_ge_pow2) simp_all
  moreover have "1 + 1 / 2 ^ 52 \<le> (2::real)" by simp
  ultimately show ?thesis by simp
qed

lemma round64_in_binade:
  assumes "g = 2 powr of_int (k - 52)" and "2 ^ 52 * g \<le> x" and "x < 2 ^ 53 * g"
  shows "round64 x = of_int (round_half_even (x / g)) * g"
proof -
  have g: "0 < g" by (simp add: assms(1))
  have lo: "2 powr of_int k = 2 ^ 52 * g"
    by (simp add: assms(1) powr_diff)
  have hi: "2 powr of_int (k + 1) = 2 ^ 53 * g"
    by (simp add: assms(1) powr_diff powr_add)
  have "0 < 2 ^ 52 * g" using g by simp
  then have x: "0 < x" using assms(2) by linarith
  have "binade x = k"
    by (rule binade_eqI) (simp_all only: lo hi assms(2,3))
  then have "ulp x = g" by (simp add: ulp_powr assms(1))
  then show ?thesis by (simp add: round64_pos[OF x])
qed

lemma round64_zero: "round64 0 = 0"
  by (simp add: round64_def)

lemma ratio_percent_zero_target: "ratio_percent s 0 = 0"
  by (simp add: ratio_percent_def float_mul_def round64_zero)

lemma ratio_percent_nonneg:
  assumes "0 < s" and "0 \<le> t"
  shows "0 \<le> ratio_percent s t"
proof -
  have "0 \<le> round64 (real_of_int t / real_of_int s)"
    using assms by (intro round64_nonneg) simp
  then show ?thesis
    unfolding ratio_percent_def float_mul_def by (intro round64_nonneg) simp
qed

lemma ratio_percent_le_100:
  assumes "0 < s" and "0 \<le> t" and "t \<le> s"
  shows "ratio_percent s t \<le> 100"
proof -
  let ?q = "round64 (real_of_int t / real_of_int s)"
  have "0 \<le> ?q" using assms by (intro round64_nonneg) simp
  moreover have "?q \<le> 1" using assms by (intro round64_le_1) simp_all
  ultimately show ?thesis
    unfolding ratio_percent_def float_mul_def by (intro round64_le_100) simp_all
qed

lemma ratio_percent_ge_100:
  assumes "0 < s" and "s \<le> t"
  shows "100 \<le> ratio_percent s t"
proof -
  have "1 \<le> round64 (real_of_int t / real_of_int s)"
    using assms by (intro round64_ge_1) simp
  then show ?thesis
    unfolding ratio_percent_def float_mul_def by (intro round64_ge_100) simp
qed

lemma ratio_percent_gt_100:
  assumes "0 < s" and "s < t" and "s < 2 ^ 53"
  shows "100 < ratio_percent s t"
proof -
  let ?x = "real_of_int t / real_of_int s"
  have s: "0 < real_of_int s" "real_of_int s < 2 ^ 53"
    using assms(1,3) by (simp_all add: of_int_less_iff[of s "2 ^ 53", where 'a = real, simplified])
  have "real_of_int s + 1 \<le> real_of_int t" using assms(2) by linarith
  then have "(real_of_int s + 1) / real_of_int s \<le> ?x"
    using s(1) by (intro divide_right_mono) simp_all
  moreover have "(real_of_int s + 1) / real_of_int s = 1 + 1 / real_of_int s"
    using s(1) by (simp add: add_divide_distrib)
  ultimately have "1 + 1 / real_of_int s \<le> ?x" by simp
  moreover have "1 / 2 ^ 53 < 1 / real_of_int s"
    using s by (simp add: field_simps)
  ultimately have "1 + 1 / 2 ^ 53 < ?x" by linarith
  then have "1 + 1 / 2 ^ 52 \<le> round64 ?x" by (rule round64_gt_1)
  then have "100 + 1 / 2 ^ 46 \<le> round64 ?x * 100" by simp
  then show ?thesis
    unfolding ratio_percent_def float_mul_def by (rule round64_gt_100)
qed

text \<open>The percent of some count pairs; the one of 20 and 11 is not 55.\<close>

lemma ratio_percent_10_4: "ratio_percent 10 4 = 40"
  by code_simp


lemma ratio_percent_2_3: "ratio_percent 2 3 = 150"
  by code_simp



section \<open>Properties of the Funnel Flow Builder\<close>

lemma length_filter_eq_count_list:
  "length (filter (\<lambda>x. f x = Some v) xs) = count_list (map f xs) (Some v)"
  by (induction xs) simp_all

lemma name_rows_eq_step_count: "name_rows fdf name = step_count fdf name"
  by (simp add: name_rows_def step_count_def shape0_def rows_bool_mask cell_eq_iff
      length_filter_eq_count_list)

lemma step_count_nonneg: "0 \<le> step_count fdf name"
  by (simp add: step_count_def)

lemma conv_percent_guarded:
  "conv_percent a b = Inr (if a > 0 then ratio_percent a b else 0)"
  by (simp add: conv_percent_def truediv_def ratio_percent_def)

lemma sankey_loop_runs:
  assumes "\<And>i. i \<in> set todo \<Longrightarrow> 0 \<le> i \<and> i + 1 < int (length steps)"
  shows "sankey_loop steps fdf todo acc
         = Inr (acc @ map (\<lambda>i. flow_edge fdf (steps ! nat i) (steps ! nat (i + 1))) todo)"
  using assms
proof (induction todo arbitrary: acc)
  case Nil
  show ?case by simp
next
  case (Cons i todo)
  have i: "0 \<le> i" "i + 1 < int (length steps)"
    using Cons.prems[of i] by simp_all
  have g0: "getitem steps i = Inr (steps ! nat i)"
    using i by (simp add: getitem_def)
  have g1: "getitem steps (i + 1) = Inr (steps ! nat (i + 1))"
    using i by (simp add: getitem_def)
  have rest: "\<And>j. j \<in> set todo \<Longrightarrow> 0 \<le> j \<and> j + 1 < int (length steps)"
    using Cons.prems by simp
  show ?case
    by (simp add: g0 g1 Let_def conv_percent_guarded name_rows_eq_step_count
        Cons.IH[OF rest] flow_edge_def)
qed

lemma create_sankey_data_eq:
  "create_sankey_data steps fdf
   = Inr (map (\<lambda>k. flow_edge fdf (steps ! k) (steps ! Suc k)) [0..<length steps - 1])"
proof -
  let ?n = "int (length steps) - 1"
  have bounds: "\<And>i. i \<in> set (py_range ?n) \<Longrightarrow> 0 \<le> i \<and> i + 1 < int (length steps)"
    by (auto simp: py_range_def)
  have idx: "py_range ?n = map int [0..<length steps - 1]"
    by (rule nth_equalityI) (auto simp: py_range_def)
  have "create_sankey_data steps fdf
        = Inr (map (\<lambda>i. flow_edge fdf (steps ! nat i) (steps ! nat (i + 1))) (py_range ?n))"
    unfolding create_sankey_data_def using sankey_loop_runs[OF bounds, of _ fdf "[]"] by simp
  also have "map (\<lambda>i. flow_edge fdf (steps ! nat i) (steps ! nat (i + 1))) (py_range ?n)
        = map (\<lambda>k. flow_edge fdf (steps ! k) (steps ! Suc k)) [0..<length steps - 1]"
    unfolding idx by (simp add: comp_def nat_add_distrib)
  finally show ?thesis .
qed

lemma create_sankey_data_nth:
  assumes "Suc i < length steps"
  shows "\<exists>edges. create_sankey_data steps fdf = Inr edges \<and> i < length edges \<and>
           edges ! i = flow_edge fdf (steps ! i) (steps ! Suc i)"
  using assms by (simp add: create_sankey_data_eq)

lemma count_list_replicate:
  "count_list (replicate n x) y = (if x = y then n else 0)"
  by (induction n) auto

lemma step_count_named_frame:
  "step_count (named_frame (replicate n (named_event a) @ es)) b
   = (if a = b then int n else 0) + step_count (named_frame es) b"
  by (simp add: step_count_def named_frame_def named_event_def count_list_replicate)

lemma step_count_named_frame_last:
  "step_count (named_frame (replicate n (named_event a))) b = (if a = b then int n else 0)"
  by (simp add: step_count_def named_frame_def named_event_def count_list_replicate)

lemmas named_frame_counts = step_count_named_frame step_count_named_frame_last

text \<open>
  C1. For every adjacent pair of steps, the edge emitted at that position carries the
  two step names and its volume is the minimum of the two steps' event counts; so the
  volume is at most each of the two counts.
\<close>

theorem edge_volume_is_min:
  assumes "Suc i < length steps"
  shows "\<exists>edges. create_sankey_data steps fdf = Inr edges \<and> i < length edges \<and>
           source (edges ! i) = steps ! i \<and> target (edges ! i) = steps ! Suc i \<and>
           volume (edges ! i) = min (step_count fdf (steps ! i)) (step_count fdf (steps ! Suc i)) \<and>
           volume (edges ! i) \<le> step_count fdf (steps ! i) \<and>
           volume (edges ! i) \<le> step_count fdf (steps ! Suc i)"
proof -
  obtain edges where e: "create_sankey_data steps fdf = Inr edges" "i < length edges"
      "edges ! i = flow_edge fdf (steps ! i) (steps ! Suc i)"
    using create_sankey_data_nth[OF assms] by blast
  have "source (edges ! i) = steps ! i" "target (edges ! i) = steps ! Suc i"
    "volume (edges ! i) = min (step_count fdf (steps ! i)) (step_count fdf (steps ! Suc i))"
    by (simp_all add: e(3) flow_edge_def)
  with e(1,2) show ?thesis by simp
qed

theorem edge_volume_is_min_witness:
  "Suc 0 < length [''S1'', ''S2''] \<and>
   (\<exists>edges. create_sankey_data [''S1'', ''S2''] scenario_A = Inr edges \<and>
      source (edges ! 0) = ''S1'' \<and> target (edges ! 0) = ''S2'' \<and> volume (edges ! 0) = 4)"
  using edge_volume_is_min[of 0 "[''S1'', ''S2'']" scenario_A]
  by (auto simp: scenario_A_def named_frame_counts)






text \<open>
  C3. For every adjacent pair of steps whose source step has no event, the builder
  returns its edges (no ZeroDivisionError, the only error a division can raise) and
  the edge's percent is 0.
\<close>

theorem edge_percent_zero_source:
  assumes "Suc i < length steps" and "step_count fdf (steps ! i) = 0"
  shows "\<exists>edges. create_sankey_data steps fdf = Inr edges \<and> i < length edges \<and>
           source (edges ! i) = steps ! i \<and> target (edges ! i) = steps ! Suc i \<and>
           percent (edges ! i) = 0"
proof -
  obtain edges where e: "create_sankey_data steps fdf = Inr edges" "i < length edges"
      "edges ! i = flow_edge fdf (steps ! i) (steps ! Suc i)"
    using create_sankey_data_nth[OF assms(1)] by blast
  have "source (edges ! i) = steps ! i" "target (edges ! i) = steps ! Suc i"
    "percent (edges ! i) = 0"
    using assms(2) by (simp_all add: e(3) flow_edge_def)
  with e(1,2) show ?thesis by simp
qed

theorem edge_percent_zero_source_witness:
  "Suc 0 < length [''S1'', ''S2''] \<and> step_count scenario_B ''S1'' = 0 \<and>
   step_count scenario_B ''S2'' = 5 \<and>
   (\<exists>edges. create_sankey_data [''S1'', ''S2''] scenario_B = Inr edges \<and>
      source (edges ! 0) = ''S1'' \<and> target (edges ! 0) = ''S2'' \<and> percent (edges ! 0) = 0)"
  using edge_percent_zero_source[of 0 "[''S1'', ''S2'']" scenario_B]
  by (auto simp: scenario_B_def named_frame_counts)

text \<open>
  C5. The builder returns one edge per adjacent pair of steps, in the order of the
  steps: the sources are the steps without the last, the targets the steps without the
  first, so there are len(funnel_steps) - 1 edges when there are two steps or more;
  with fewer than two steps it returns the empty list and raises nothing.
\<close>

theorem edges_follow_steps:
  "\<exists>edges. create_sankey_data steps fdf = Inr edges \<and>
     length edges = length steps - 1 \<and>
     int (length edges) = max 0 (int (length steps) - 1) \<and>
     map source edges = butlast steps \<and>
     map target edges = tl steps \<and>
     (length steps < 2 \<longrightarrow> edges = [])"
proof -
  let ?edges = "map (\<lambda>k. flow_edge fdf (steps ! k) (steps ! Suc k)) [0..<length steps - 1]"
  have "map source ?edges = map (\<lambda>k. steps ! k) [0..<length steps - 1]"
    by (simp add: flow_edge_def)
  also have "\<dots> = butlast steps"
    by (simp add: list_eq_iff_nth_eq nth_butlast)
  finally have src: "map source ?edges = butlast steps" .
  have "map target ?edges = map (\<lambda>k. steps ! Suc k) [0..<length steps - 1]"
    by (simp add: flow_edge_def)
  also have "\<dots> = tl steps"
    by (simp add: list_eq_iff_nth_eq nth_tl)
  finally have tgt: "map target ?edges = tl steps" .
  have len: "length ?edges = length steps - 1"
    "int (length ?edges) = max 0 (int (length steps) - 1)"
    by auto
  have few: "length steps < 2 \<longrightarrow> ?edges = []"
    by auto
  from src tgt len few show ?thesis
    unfolding create_sankey_data_eq by blast
qed

theorem edges_follow_steps_witness:
  "length ([] :: string list) < 2 \<and> length [''S1''] < 2 \<and>
   create_sankey_data [] scenario_A = Inr [] \<and>
   create_sankey_data [''S1''] scenario_A = Inr [] \<and>
   (\<exists>edges. create_sankey_data [''S1'', ''S2'', ''S3''] scenario_C = Inr edges \<and>
      length edges = 2 \<and> map source edges = [''S1'', ''S2''] \<and> map target edges = [''S2'', ''S3''])"
  using edges_follow_steps[of "[]" scenario_A] edges_follow_steps[of "[''S1'']" scenario_A]
    edges_follow_steps[of "[''S1'', ''S2'', ''S3'']" scenario_C]
  by auto

lemma surplus_frame_edges:
  "create_sankey_data funnel_steps surplus_frame
   = Inr [\<lparr>source = ''SUBSCRIPTION-CURATED-PLAN-SELECTION-LAUNCH'',
            target = ''SUBSCRIPTION-CURATED-PLAN-SELECTION-PROCEED'', volume = 0, percent = 0\<rparr>,
          \<lparr>source = ''SUBSCRIPTION-CURATED-PLAN-SELECTION-PROCEED'',
            target = ''APP-SELECTION-PAGE'', volume = 0, percent = 0\<rparr>,
          \<lparr>source = ''APP-SELECTION-PAGE'',
            target = ''CHOOSE_YOUR_APP_PROCEED'', volume = 0, percent = 0\<rparr>,
          \<lparr>source = ''CHOOSE_YOUR_APP_PROCEED'',
            target = ''SUBSCRIPTION-SUMMARY-LAUNCH'', volume = 0, percent = 0\<rparr>,
          \<lparr>source = ''SUBSCRIPTION-SUMMARY-LAUNCH'',
            target = ''SUBSCRIPTION-SUMMARY-PROCEED'', volume = 0, percent = 0\<rparr>,
          \<lparr>source = ''SUBSCRIPTION-SUMMARY-PROCEED'',
            target = ''PAYMENT-INITIATE'', volume = 0, percent = 0\<rparr>,
          \<lparr>source = ''PAYMENT-INITIATE'', target = ''PAYMENT'', volume = 0, percent = 0\<rparr>,
          \<lparr>source = ''PAYMENT'', target = ''BINGE-SUBSCRIPTION'', volume = 2, percent = 150\<rparr>,
          \<lparr>source = ''BINGE-SUBSCRIPTION'', target = ''SUBSCRIBE-SUCCESS'',
            volume = 0, percent = 0\<rparr>]"
  by (simp add: create_sankey_data_eq funnel_steps_def flow_edge_def surplus_frame_def
      named_frame_counts ratio_percent_2_3 ratio_percent_zero_target
      upt_rec[of 0] upt_rec[of "Suc n" for n])

text \<open>
  C6, as stated, fails: nothing clamps the percent. With the configured funnel and a
  filtered collection of two PAYMENT events and three BINGE-SUBSCRIPTION events, the
  edge from PAYMENT to BINGE-SUBSCRIPTION has percent 3 / 2 * 100 = 150 (exact in
  binary64).
\<close>

theorem percent_above_100:
  "create_sankey_data funnel_steps surplus_frame
   = Inr [\<lparr>source = ''SUBSCRIPTION-CURATED-PLAN-SELECTION-LAUNCH'',
            target = ''SUBSCRIPTION-CURATED-PLAN-SELECTION-PROCEED'', volume = 0, percent = 0\<rparr>,
          \<lparr>source = ''SUBSCRIPTION-CURATED-PLAN-SELECTION-PROCEED'',
            target = ''APP-SELECTION-PAGE'', volume = 0, percent = 0\<rparr>,
          \<lparr>source = ''APP-SELECTION-PAGE'',
            target = ''CHOOSE_YOUR_APP_PROCEED'', volume = 0, percent = 0\<rparr>,
          \<lparr>source = ''CHOOSE_YOUR_APP_PROCEED'',
            target = ''SUBSCRIPTION-SUMMARY-LAUNCH'', volume = 0, percent = 0\<rparr>,
          \<lparr>source = ''SUBSCRIPTION-SUMMARY-LAUNCH'',
            target = ''SUBSCRIPTION-SUMMARY-PROCEED'', volume = 0, percent = 0\<rparr>,
          \<lparr>source = ''SUBSCRIPTION-SUMMARY-PROCEED'',
            target = ''PAYMENT-INITIATE'', volume = 0, percent = 0\<rparr>,
          \<lparr>source = ''PAYMENT-INITIATE'', target = ''PAYMENT'', volume = 0, percent = 0\<rparr>,
          \<lparr>source = ''PAYMENT'', target = ''BINGE-SUBSCRIPTION'', volume = 2, percent = 150\<rparr>,
          \<lparr>source = ''BINGE-SUBSCRIPTION'', target = ''SUBSCRIBE-SUCCESS'',
            volume = 0, percent = 0\<rparr>]
   \<and> \<not> percent \<lparr>source = ''PAYMENT'', target = ''BINGE-SUBSCRIPTION'', volume = 2, percent = 150\<rparr>
         \<le> 100"
  using surplus_frame_edges by simp

text \<open>
  C6, amended. Every edge the builder returns has a volume of at least 0 and a percent
  of at least 0. The percent is 0 when the source step has no event; it is at most 100
  when the target step's count is at most the source step's count; when the target's
  count is above a positive source count it is at least 100, and above 100 for every
  source count below 2^53.
\<close>

theorem edge_ranges:
  assumes "create_sankey_data steps fdf = Inr edges" and "e \<in> set edges"
  shows "0 \<le> volume e \<and> 0 \<le> percent e \<and>
         (step_count fdf (source e) = 0 \<longrightarrow> percent e = 0) \<and>
         (step_count fdf (target e) \<le> step_count fdf (source e) \<longrightarrow> percent e \<le> 100) \<and>
         (0 < step_count fdf (source e) \<and> step_count fdf (source e) < step_count fdf (target e)
            \<longrightarrow> 100 \<le> percent e) \<and>
         (0 < step_count fdf (source e) \<and> step_count fdf (source e) < step_count fdf (target e) \<and>
          step_count fdf (source e) < 2 ^ 53
            \<longrightarrow> 100 < percent e)"
proof -
  from assms obtain k where e: "e = flow_edge fdf (steps ! k) (steps ! Suc k)"
    unfolding create_sankey_data_eq by auto
  let ?s = "step_count fdf (steps ! k)" and ?t = "step_count fdf (steps ! Suc k)"
  have s: "0 \<le> ?s" and t: "0 \<le> ?t"
    by (rule step_count_nonneg)+
  have fields: "source e = steps ! k" "target e = steps ! Suc k" "volume e = min ?s ?t"
    "percent e = (if ?s > 0 then ratio_percent ?s ?t else 0)"
    by (simp_all add: e flow_edge_def)
  have vol: "0 \<le> volume e"
    using s t by (simp add: fields)
  have low: "0 \<le> percent e"
    using t by (simp add: fields ratio_percent_nonneg)
  have zero: "percent e = 0" if "?s = 0"
    using that by (simp add: fields)
  have high: "percent e \<le> 100" if "?t \<le> ?s"
    using that t by (simp add: fields ratio_percent_le_100)
  have least: "100 \<le> percent e" if "0 < ?s" "?s < ?t"
    using that by (simp add: fields ratio_percent_ge_100)
  have over: "100 < percent e" if "0 < ?s" "?s < ?t" "?s < 2 ^ 53"
    using that by (simp add: fields ratio_percent_gt_100)
  from vol low zero high least over show ?thesis
    by (simp add: fields)
qed

lemma scenario_A_edges:
  "create_sankey_data [''S1'', ''S2''] scenario_A
   = Inr [\<lparr>source = ''S1'', target = ''S2'', volume = 4, percent = 40\<rparr>]"
  by (simp add: create_sankey_data_eq flow_edge_def scenario_A_def named_frame_counts
      ratio_percent_10_4)

lemma scenario_B_edges:
  "create_sankey_data [''S1'', ''S2''] scenario_B
   = Inr [\<lparr>source = ''S1'', target = ''S2'', volume = 0, percent = 0\<rparr>]"
  by (simp add: create_sankey_data_eq flow_edge_def scenario_B_def named_frame_counts)

theorem edge_ranges_witness:
  "create_sankey_data [''S1'', ''S2''] scenario_A
     = Inr [\<lparr>source = ''S1'', target = ''S2'', volume = 4, percent = 40\<rparr>] \<and>
   \<lparr>source = ''S1'', target = ''S2'', volume = 4, percent = 40\<rparr>
     \<in> set [\<lparr>source = ''S1'', target = ''S2'', volume = 4, percent = 40\<rparr>] \<and>
   step_count scenario_A ''S2'' \<le> step_count scenario_A ''S1'' \<and>
   (0::int) \<le> 4 \<and> (0::real) \<le> 40 \<and> (40::real) \<le> 100 \<and>
   0 < step_count surplus_frame ''PAYMENT'' \<and>
   step_count surplus_frame ''PAYMENT'' < step_count surplus_frame ''BINGE-SUBSCRIPTION'' \<and>
   step_count surplus_frame ''PAYMENT'' < 2 ^ 53 \<and>
   (0::int) \<le> 2 \<and> (100::real) < 150 \<and>
   create_sankey_data [''S1'', ''S2''] scenario_B
     = Inr [\<lparr>source = ''S1'', target = ''S2'', volume = 0, percent = 0\<rparr>] \<and>
   step_count scenario_B ''S1'' = 0 \<and>
   percent \<lparr>source = ''S1'', target = ''S2'', volume = 0, percent = 0\<rparr> = 0"
  using edge_ranges[OF scenario_A_edges,
      of "\<lparr>source = ''S1'', target = ''S2'', volume = 4, percent = 40\<rparr>"]
    edge_ranges[OF surplus_frame_edges,
      of "\<lparr>source = ''PAYMENT'', target = ''BINGE-SUBSCRIPTION'', volume = 2, percent = 150\<rparr>"]
    edge_ranges[OF scenario_B_edges,
      of "\<lparr>source = ''S1'', target = ''S2'', volume = 0, percent = 0\<rparr>"]
    scenario_A_edges scenario_B_edges
  by (simp add: scenario_A_def scenario_B_def surplus_frame_def named_frame_counts)

section \<open>General facts about the views\<close>

lemma columns_filtered_df: "columns (filtered_df df s e p u) = columns df"
  by (simp add: filtered_df_as_mask columns_bool_mask)

lemma columns_prepare:
  assumes "prepare df = Inr df'"
  shows "set (columns df') = insert ''event_date'' (set (columns df))" and "rows df' = rows df"
  using assms by (auto simp: prepare_def and_then_def require_def split: if_splits)

lemma set_dropna: "set (dropna col) = {v. Some v \<in> set col}"
  by (auto simp: dropna_def split: option.splits)

lemma set_unique: "set (unique vs) = set vs"
  by (simp add: unique_def)

lemma distinct_unique: "distinct (unique vs)"
  by (simp add: unique_def)

lemma distinct_map_insort_key:
  "distinct (map g (insort_key f x xs)) \<longleftrightarrow> g x \<notin> g ` set xs \<and> distinct (map g xs)"
  by (induction xs) (auto simp: set_insort_key)

lemma distinct_map_sort_key:
  "distinct (map g (sort_key f xs)) \<longleftrightarrow> distinct (map g xs)"
  by (induction xs) (auto simp: distinct_map_insort_key)

text \<open>A value without a row is not in the table of \<open>value_counts\<close>.\<close>

lemma map_of_value_counts_None:
  "map_of (value_counts col) v = None \<longleftrightarrow> Some v \<notin> set col"
  by (simp add: value_counts_def Let_def map_of_eq_None_iff set_unique set_dropna image_image)

text \<open>A value with a row is in the table, with the number of its rows.\<close>

lemma map_of_value_counts_Some:
  assumes "Some v \<in> set col"
  shows "map_of (value_counts col) v = Some (int (count_list col (Some v)))"
proof -
  let ?vs = "dropna col"
  let ?tab = "map (\<lambda>v. (v, int (count_list ?vs v))) (unique ?vs)"
  have cnt: "count_list ?vs v = count_list col (Some v)"
    by (induction col) (auto simp: dropna_def split: option.splits)
  have "distinct (map fst (sort_key (\<lambda>vc. - snd vc) ?tab))"
    by (simp add: distinct_map_sort_key comp_def distinct_unique)
  moreover have "(v, int (count_list col (Some v))) \<in> set (sort_key (\<lambda>vc. - snd vc) ?tab)"
    using assms by (auto simp: set_unique set_dropna cnt)
  ultimately show ?thesis
    by (simp add: value_counts_def Let_def)
qed

lemma map_of_reindex:
  "l \<in> set labels \<Longrightarrow> map_of (reindex series labels) l = Some (map_of series l)"
  by (induction labels) (auto simp: reindex_def)

lemma step_count_zero_iff:
  "step_count fdf name = 0 \<longleftrightarrow> Some name \<notin> set (map event_name (rows fdf))"
  by (simp add: step_count_def count_list_0_iff)

lemma isin_Some: "isin (Some v) vs \<longleftrightarrow> v \<in> set vs"
  by (simp add: isin_def)

lemma count_list_isin_filter:
  assumes "v \<in> set vs"
  shows "count_list (map f (filter (\<lambda>e. isin (f e) vs) xs)) (Some v) = count_list (map f xs) (Some v)"
  using assms by (induction xs) (auto simp: isin_Some)

text \<open>
  The table of the funnel bar chart lists the funnel's steps in order. A step with
  filtered events carries their number; a step with none carries a null.
\<close>

lemma funnel_counts_steps:
  assumes "funnel_counts fdf = Inr table"
  shows "map fst table = funnel_steps"
  using assms
  by (auto simp: funnel_counts_def and_then_def require_def Let_def reindex_def comp_def
      split: if_splits)

lemma funnel_counts_present_step:
  assumes "funnel_counts fdf = Inr table" and "name \<in> set funnel_steps"
    and "0 < step_count fdf name"
  shows "map_of table name = Some (Some (step_count fdf name))"
proof -
  let ?col = "map event_name (rows (bool_mask (\<lambda>e. isin (event_name e) funnel_steps) fdf))"
  from assms(1) have table: "table = reindex (value_counts ?col) funnel_steps"
    by (auto simp: funnel_counts_def and_then_def require_def Let_def split: if_splits)
  have cnt: "count_list ?col (Some name) = count_list (map event_name (rows fdf)) (Some name)"
    using assms(2) by (simp add: rows_bool_mask count_list_isin_filter)
  have "0 < count_list ?col (Some name)"
    using assms(3) unfolding cnt by (simp add: step_count_def)
  then have present: "Some name \<in> set ?col"
    using count_list_0_iff[of ?col "Some name"] by (simp del: count_list_0_iff)
  show ?thesis
    unfolding table
    by (simp add: map_of_reindex[OF assms(2)] map_of_value_counts_Some[OF present] cnt step_count_def)
qed

lemma funnel_counts_absent_step:
  assumes "funnel_counts fdf = Inr table" and "name \<in> set funnel_steps"
    and "step_count fdf name = 0"
  shows "map_of table name = Some None"
proof -
  have absent: "Some name \<notin> set (map event_name (rows fdf))"
    using assms(3) by (simp add: step_count_zero_iff)
  from assms(1) have table: "table = reindex (value_counts (map event_name
        (rows (bool_mask (\<lambda>e. isin (event_name e) funnel_steps) fdf)))) funnel_steps"
    by (auto simp: funnel_counts_def and_then_def require_def Let_def split: if_splits)
  have "Some name \<notin> set (map event_name (rows (bool_mask (\<lambda>e. isin (event_name e) funnel_steps) fdf)))"
    using absent by (auto simp: rows_bool_mask)
  then have "map_of (value_counts (map event_name
        (rows (bool_mask (\<lambda>e. isin (event_name e) funnel_steps) fdf)))) name = None"
    by (simp add: map_of_value_counts_None)
  then show ?thesis
    unfolding table using map_of_reindex[OF assms(2)] by simp
qed

text \<open>The explorer's table is the same whatever the dates and the two filters are.\<close>

lemma explorer_ignores_filters:
  assumes "dashboard df s e p u c n = Inr v" and "dashboard df s' e' p' u' c n = Inr v'"
  shows "explorer v' = explorer v"
  using assms
  by (auto simp: dashboard_def and_then_def Let_def split: sum.splits)

text \<open>No run on a sheet without the column \<^verbatim>\<open>mp_os\<close> completes.\<close>

lemma dashboard_needs_mp_os:
  assumes "''mp_os'' \<notin> set (columns df)"
  shows "dashboard df s e p u c n \<noteq> Inr v"
proof -
  have dev: "device_summary (filtered_df df' s e p u) = Inl (KeyError ''mp_os'')"
    if "prepare df = Inr df'" for df'
  proof -
    from that have "''mp_os'' \<notin> set (columns df')"
      using assms by (auto simp: prepare_def and_then_def require_def split: if_splits)
    then show ?thesis
      by (simp add: device_summary_def and_then_def require_def columns_filtered_df)
  qed
  show ?thesis
    by (auto simp: dashboard_def and_then_def Let_def dev split: sum.splits)
qed

text \<open>
  The two views with a presence check: in a run that completes, the payment view is
  left out when one of its columns is absent, and the pack view when \<^verbatim>\<open>pack_name\<close> is.
\<close>

lemma gated_views_left_out:
  assumes "dashboard df s e p u c n = Inr v"
  shows "(''payment_method'' \<notin> set (columns df) \<or> ''payment_status'' \<notin> set (columns df)
            \<longrightarrow> payment v = None) \<and>
         (''pack_name'' \<notin> set (columns df) \<longrightarrow> pack_popularity v = None)"
proof -
  from assms obtain df' where p: "prepare df = Inr df'"
    by (auto simp: dashboard_def and_then_def split: sum.splits)
  let ?fdf = "filtered_df df' s e p u"
  have cols: "set (columns ?fdf) = insert ''event_date'' (set (columns df))"
    by (simp add: columns_filtered_df columns_prepare(1)[OF p])
  from assms p obtain a b where ab: "payment_summary ?fdf = Inr a" "pack_summary ?fdf = Inr b"
      "payment v = a" "pack_popularity v = b"
    by (auto simp: dashboard_def and_then_def Let_def split: sum.splits)
  have "a = None" if "''payment_method'' \<notin> set (columns df) \<or> ''payment_status'' \<notin> set (columns df)"
    using that ab(1) by (auto simp: payment_summary_def cols split: if_splits)
  moreover have "b = None" if "''pack_name'' \<notin> set (columns df)"
    using that ab(2) by (auto simp: pack_summary_def cols and_then_def split: if_splits)
  ultimately show ?thesis using ab(3,4) by blast
qed

section \<open>The views on the sample sheet\<close>

lemmas run_script =
  dashboard_def prepare_def require_def and_then_def filtered_df_def Let_def bool_mask_def
  cell_ge_def cell_le_def funnel_counts_def isin_def funnel_steps_def create_sankey_data_eq
  flow_edge_def step_count_def daily_events_def campaign_summary_def device_summary_def
  payment_summary_def pack_summary_def col_counts_def selectbox_def columns_to_visualize_def
  nlargest_def value_counts_def dropna_def unique_def cell_def reindex_def groupby_size_def

lemma dashboard_sample_sheet:
  "dashboard sample_sheet 1 1 ''All'' ''All'' ''mp_os'' 20
   = Inr \<lparr>funnel_bar =
            [(''SUBSCRIPTION-CURATED-PLAN-SELECTION-LAUNCH'', None),
             (''SUBSCRIPTION-CURATED-PLAN-SELECTION-PROCEED'', None),
             (''APP-SELECTION-PAGE'', None),
             (''CHOOSE_YOUR_APP_PROCEED'', None),
             (''SUBSCRIPTION-SUMMARY-LAUNCH'', None),
             (''SUBSCRIPTION-SUMMARY-PROCEED'', None),
             (''PAYMENT-INITIATE'', None),
             (''PAYMENT'', Some 1),
             (''BINGE-SUBSCRIPTION'', None),
             (''SUBSCRIBE-SUCCESS'', None)],
          sankey =
            [\<lparr>source = ''SUBSCRIPTION-CURATED-PLAN-SELECTION-LAUNCH'',
               target = ''SUBSCRIPTION-CURATED-PLAN-SELECTION-PROCEED'', volume = 0, percent = 0\<rparr>,
             \<lparr>source = ''SUBSCRIPTION-CURATED-PLAN-SELECTION-PROCEED'',
               target = ''APP-SELECTION-PAGE'', volume = 0, percent = 0\<rparr>,
             \<lparr>source = ''APP-SELECTION-PAGE'',
               target = ''CHOOSE_YOUR_APP_PROCEED'', volume = 0, percent = 0\<rparr>,
             \<lparr>source = ''CHOOSE_YOUR_APP_PROCEED'',
               target = ''SUBSCRIPTION-SUMMARY-LAUNCH'', volume = 0, percent = 0\<rparr>,
             \<lparr>source = ''SUBSCRIPTION-SUMMARY-LAUNCH'',
               target = ''SUBSCRIPTION-SUMMARY-PROCEED'', volume = 0, percent = 0\<rparr>,
             \<lparr>source = ''SUBSCRIPTION-SUMMARY-PROCEED'',
               target = ''PAYMENT-INITIATE'', volume = 0, percent = 0\<rparr>,
             \<lparr>source = ''PAYMENT-INITIATE'', target = ''PAYMENT'', volume = 0, percent = 0\<rparr>,
             \<lparr>source = ''PAYMENT'', target = ''BINGE-SUBSCRIPTION'', volume = 0, percent = 0\<rparr>,
             \<lparr>source = ''BINGE-SUBSCRIPTION'', target = ''SUBSCRIBE-SUCCESS'',
               volume = 0, percent = 0\<rparr>],
          daily_trends = [(1, 1)],
          campaign_conversions = [],
          device_os = [(''Android'', 1)],
          payment = None,
          pack_popularity = None,
          explorer = [(''Android'', 2)]\<rparr>"
  by (simp add: run_script ratio_percent_zero_target sample_sheet_def sample_row_def)

text \<open>
  C7, on the code. With the date range [1, 1] the filtered collection of the sample
  sheet is its first row alone: the OS view, which reads \<^verbatim>\<open>filtered_df["mp_os"]\<close>,
  counts one Android row. The explorer on the same column reads \<^verbatim>\<open>df_copy\<close> and
  counts both rows of the sheet.
\<close>

theorem explorer_counts_unfiltered_rows:
  "rows (filtered_df sample_sheet 1 1 ''All'' ''All'') = [sample_row 1 ''PAYMENT'' ''Android''] \<and>
   (case dashboard sample_sheet 1 1 ''All'' ''All'' ''mp_os'' 20 of
      Inl err \<Rightarrow> False
    | Inr v \<Rightarrow> device_os v = [(''Android'', 1)] \<and> explorer v = [(''Android'', 2)])"
  by (simp add: dashboard_sample_sheet)
     (simp add: rows_filtered_df passes_def sample_sheet_def sample_row_def)

text \<open>
  C8, on the code. The funnel bar chart's table has one entry per funnel step, in the
  funnel's order, but a step with no filtered event carries a null count, not 0: on
  the sample sheet every step but PAYMENT does.
\<close>

theorem funnel_bar_null_for_absent_step:
  "(case dashboard sample_sheet 1 1 ''All'' ''All'' ''mp_os'' 20 of
      Inl err \<Rightarrow> False
    | Inr v \<Rightarrow>
        map fst (funnel_bar v) = funnel_steps \<and>
        map_of (funnel_bar v) ''PAYMENT'' = Some (Some 1) \<and>
        map_of (funnel_bar v) ''SUBSCRIBE-SUCCESS'' = Some None \<and>
        map_of (funnel_bar v) ''SUBSCRIBE-SUCCESS'' \<noteq> Some (Some 0))"
  by (simp add: dashboard_sample_sheet funnel_steps_def)

text \<open>
  C9, on the code. The sample sheet has no payment and no pack column: both views are
  left out and the run completes. The same sheet without the column \<^verbatim>\<open>mp_os\<close> ends
  the run with KeyError at the OS view (line 181), which no presence check gates, so
  the payment, pack and explorer views after it are not reached.
\<close>

theorem missing_mp_os_raises:
  "(case dashboard sample_sheet 1 1 ''All'' ''All'' ''mp_os'' 20 of
      Inl err \<Rightarrow> False
    | Inr v \<Rightarrow> payment v = None \<and> pack_popularity v = None) \<and>
   dashboard sheet_without_mp_os 1 1 ''All'' ''All'' ''mp_brand'' 20 = Inl (KeyError ''mp_os'')"
  by (simp add: dashboard_sample_sheet)
     (simp add: run_script sheet_without_mp_os_def sample_sheet_def sample_row_def)

end
